theory Spec2Isabelle
  imports Complex_Main
begin

section \<open>Values, errors and the collaborators of \<open>optimize_type\<close>\<close>

text \<open>
  The embedding follows \<^verbatim>\<open>examples/optimize_type.py\<close>. A tensor is the flat list
  of its elements, and an element is a real number. This is the run of the program in
  which every score, gradient, moment and parameter is a finite number: on those the order
  of floating point numbers is the order of the reals, and \<open>torch.max\<close> and \<open>torch.min\<close>
  only compare and copy. A run in which an infinity or a NaN arises has no counterpart
  here (an infinite gradient makes Adam write a NaN into the parameter, and \<open>torch.max\<close>
  and \<open>torch.min\<close> keep it), and the rounding of floating point arithmetic is not
  modelled.
\<close>

type_synonym tensor = "real list"

datatype error = ZeroDivisionError | IndexError | RuntimeError

text \<open>
  Modelled from the spec: the class \<open>CharacterType\<close> of \<open>pybpl.objects\<close> is not
  among the sources. Section 3 of the specification gives it a flat ordered sequence of
  parameters and, for a tolerance, two sequences of bounds, each entry a tensor or absent
  (\<open>None\<close>). The parameters are the only part the optimizer mutates.
\<close>

record character_type =
  parameters :: "tensor list"
  lbs :: "real \<Rightarrow> tensor option list"
  ubs :: "real \<Rightarrow> tensor option list"

text \<open>
  Modelled from the spec: the class \<open>CharacterModel\<close> of \<open>pybpl.model\<close> is not
  among the sources. It scores a type, and samples a token of a type and an image of a
  token. \<open>score_grad model c k j\<close> is the derivative of the score in element \<open>j\<close> of
  parameter \<open>k\<close>, which reverse-mode differentiation leaves in the parameter's gradient.
  Sampling reads the type and draws from the random number generator, whose state it
  returns; by section 5 of the specification it mutates neither the type nor the optimizer.
\<close>

record ('rng, 'tok, 'img) character_model =
  score_type :: "character_type \<Rightarrow> real"
  score_grad :: "character_type \<Rightarrow> nat \<Rightarrow> nat \<Rightarrow> real"
  sample_token :: "character_type \<Rightarrow> 'rng \<Rightarrow> 'tok \<times> 'rng"
  sample_image :: "'tok \<Rightarrow> 'rng \<Rightarrow> 'img \<times> 'rng"

subsection \<open>Rounding the iteration count\<close>

text \<open>
  \<open>rint_div a f\<close> is \<open>rint (a / f)\<close> for a positive \<open>f\<close>: the nearest integer, and the
  even one of the two when the quotient lies halfway.
\<close>

definition rint_div :: "int \<Rightarrow> int \<Rightarrow> int" where
  "rint_div a f =
     (let q = a div f; r = a mod f
      in if 2 * r < f then q
         else if f < 2 * r then q + 1
         else if even q then q
         else q + 1)"

text \<open>
  \<open>np.round\<close> on an integer: the value itself for \<open>decimals \<ge> 0\<close>; otherwise it is
  divided by \<open>10 ^ (- decimals)\<close>, rounded by \<open>rint\<close>, multiplied back and cast to the
  64-bit integer type. NumPy does the three steps in double precision. For \<open>decimals = - 1\<close>
  and \<open>\<bar>a\<bar> < 2 ^ 53\<close> the double holds \<open>a\<close> exactly, the quotient is rounded by less than
  the distance to the next half integer, and the product is exact, so the program's value
  is the one defined here. From \<open>2 ^ 53\<close> on the double arithmetic rounds and the cast can
  overflow, and the program's value can differ: this definition describes the program for
  counts below \<open>2 ^ 53\<close> in absolute value only.
\<close>

definition np_round :: "int \<Rightarrow> int \<Rightarrow> int" where
  "np_round a decimals =
     (if 0 \<le> decimals then a
      else (let f = 10 ^ nat (- decimals) in rint_div a f * f))"

text \<open>
  \<open>int (a / b)\<close>: true division, then truncation towards zero. The division is a double
  division; for the divisor ten and \<open>\<bar>a\<bar> < 2 ^ 53\<close> its quotient truncates to the value
  defined here, and above that range it can differ.
\<close>

definition int_truediv :: "int \<Rightarrow> int \<Rightarrow> int" where
  "int_truediv a b = sgn a * sgn b * (\<bar>a\<bar> div \<bar>b\<bar>)"

subsection \<open>The Adam optimizer\<close>

text \<open>
  \<open>torch.optim.Adam (params, lr = lr)\<close> with its defaults: decay coefficients \<open>0.9\<close> and
  \<open>0.999\<close>, stability constant \<open>1e-8\<close>, no weight decay. The moment accumulators start
  as zeros of the shapes of the parameters.
\<close>

record adam =
  adam_lr :: real
  exp_avg :: "tensor list"
  exp_avg_sq :: "tensor list"
  step_count :: nat

definition beta1 :: real where "beta1 = 9 / 10"
definition beta2 :: real where "beta2 = 999 / 1000"
definition adam_eps :: real where "adam_eps = 1 / 100000000"

definition Adam :: "tensor list \<Rightarrow> real \<Rightarrow> adam" where
  "Adam params lr =
     \<lparr>adam_lr = lr,
      exp_avg = map (\<lambda>p. replicate (length p) 0) params,
      exp_avg_sq = map (\<lambda>p. replicate (length p) 0) params,
      step_count = 0\<rparr>"

text \<open>
  One element of one parameter: the new value and the new moments, in real arithmetic on
  a gradient and moments that are finite numbers. An infinite or NaN gradient, which the
  program turns into a NaN parameter, is outside this definition.
\<close>

definition adam_elem :: "real \<Rightarrow> nat \<Rightarrow> real \<Rightarrow> real \<Rightarrow> real \<Rightarrow> real \<Rightarrow> real \<times> real \<times> real" where
  "adam_elem lr t x g m v =
     (let m' = m + (1 - beta1) * (g - m);
          v' = beta2 * v + (1 - beta2) * (g * g);
          step_size = lr / (1 - beta1 ^ t);
          denom = sqrt v' / sqrt (1 - beta2 ^ t) + adam_eps
      in (x - step_size * (m' / denom), m', v'))"

definition adam_tensor :: "real \<Rightarrow> nat \<Rightarrow> (nat \<Rightarrow> real) \<Rightarrow> tensor \<Rightarrow> tensor \<Rightarrow> tensor \<Rightarrow> (real \<times> real \<times> real) list" where
  "adam_tensor lr t grad p m v =
     map (\<lambda>j. adam_elem lr t (p ! j) (grad j) (m ! j) (v ! j)) [0..<length p]"

text \<open>
  \<open>optimizer.step ()\<close>: the step counter advances, then every parameter and its two
  moments are updated element by element. The result is the new parameter list and the
  new optimizer state.
\<close>

definition adam_step :: "adam \<Rightarrow> (nat \<Rightarrow> nat \<Rightarrow> real) \<Rightarrow> tensor list \<Rightarrow> tensor list \<times> adam" where
  "adam_step opt grads params =
     (let t = Suc (step_count opt);
          upd = map (\<lambda>k. adam_tensor (adam_lr opt) t (grads k)
                           (params ! k) (exp_avg opt ! k) (exp_avg_sq opt ! k))
                    [0..<length params]
      in (map (map fst) upd,
          opt\<lparr>exp_avg := map (map (\<lambda>e. fst (snd e))) upd,
              exp_avg_sq := map (map (\<lambda>e. snd (snd e))) upd,
              step_count := t\<rparr>))"

subsection \<open>Projection into the bounds\<close>

text \<open>
  \<open>torch.max (param, lb, out = param)\<close> and \<open>torch.min (param, ub, out = param)\<close>,
  element by element. Modelled from the spec: a bound that is present has the shape of
  its parameter (section 3); a bound of another shape is outside that contract and is
  the error value here.
\<close>

definition torch_max :: "tensor \<Rightarrow> tensor \<Rightarrow> error + tensor" where
  "torch_max param b =
     (if length b = length param then Inr (map2 max param b) else Inl RuntimeError)"

definition torch_min :: "tensor \<Rightarrow> tensor \<Rightarrow> error + tensor" where
  "torch_min param b =
     (if length b = length param then Inr (map2 min param b) else Inl RuntimeError)"

text \<open>The body of the projection loop: the lower clamp, then the upper clamp.\<close>

definition project_param :: "tensor \<Rightarrow> tensor option \<Rightarrow> tensor option \<Rightarrow> error + tensor" where
  "project_param param lb ub =
     (case (case lb of None \<Rightarrow> Inr param | Some l \<Rightarrow> torch_max param l) of
        Inl e \<Rightarrow> Inl e
      | Inr param' \<Rightarrow> (case ub of None \<Rightarrow> Inr param' | Some u \<Rightarrow> torch_min param' u))"

text \<open>
  \<open>for param, lb, ub in zip (params, lbs, ubs)\<close>: \<open>zip\<close> stops at the shortest of the
  three lists, and the parameters beyond it stay as they are.
\<close>

fun project :: "tensor list \<Rightarrow> tensor option list \<Rightarrow> tensor option list \<Rightarrow> error + tensor list" where
  "project (param # params) (lb # ls) (ub # us) =
     (case project_param param lb ub of
        Inl e \<Rightarrow> Inl e
      | Inr param' \<Rightarrow>
          (case project params ls us of
             Inl e \<Rightarrow> Inl e
           | Inr params' \<Rightarrow> Inr (param' # params')))"
| "project params ls us = Inr params"

subsection \<open>The diagnostic grid\<close>

text \<open>
  A cell of the grid of \<open>plt.subplots (10, 4)\<close>: the image last shown in it and its
  row label. \<open>tick_params\<close> only hides the ticks and is left out.
\<close>

record 'img ax =
  shown :: "'img option"
  ylabel :: "nat option"

definition subplots :: "nat \<Rightarrow> nat \<Rightarrow> 'img ax list list" where
  "subplots nrows ncols = replicate nrows (replicate ncols \<lparr>shown = None, ylabel = None\<rparr>)"

text \<open>An index into an axis of length \<open>n\<close>: negative indices count from the end.\<close>

definition np_index :: "nat \<Rightarrow> int \<Rightarrow> error + nat" where
  "np_index n i =
     (if 0 \<le> i \<and> i < int n then Inr (nat i)
      else if - int n \<le> i \<and> i < 0 then Inr (nat (i + int n))
      else Inl IndexError)"

text \<open>\<open>axes[row, col]\<close> updated by \<open>f\<close>.\<close>

definition update_ax :: "'img ax list list \<Rightarrow> int \<Rightarrow> int \<Rightarrow> ('img ax \<Rightarrow> 'img ax) \<Rightarrow> error + 'img ax list list" where
  "update_ax axes row col f =
     (case np_index (length axes) row of
        Inl e \<Rightarrow> Inl e
      | Inr r \<Rightarrow>
          (case np_index (length (axes ! r)) col of
             Inl e \<Rightarrow> Inl e
           | Inr c \<Rightarrow> Inr (axes[r := (axes ! r)[c := f (axes ! r ! c)]])))"

subsection \<open>The loop\<close>

text \<open>
  What the loop reads and writes: the type \<open>c\<close> (mutated in place), the optimizer, the
  list of scores, the iteration numbers printed, the state of the random number
  generator and the grid.
\<close>

record ('rng, 'img) loop_state =
  ctype :: character_type
  optimizer :: adam
  score_list :: "real list"
  printed :: "nat list"
  rng :: 'rng
  axes :: "'img ax list list"

text \<open>\<open>for i in range (4)\<close>: sample a token, render it, show it in \<open>axes[row, i]\<close>.\<close>

fun show_tokens :: "('rng, 'tok, 'img) character_model \<Rightarrow> character_type \<Rightarrow> int \<Rightarrow> nat list
    \<Rightarrow> 'rng \<times> 'img ax list list \<Rightarrow> error + 'rng \<times> 'img ax list list" where
  "show_tokens model c row [] ga = Inr ga"
| "show_tokens model c row (i # is) (g, axs) =
     (let (token, g1) = sample_token model c g;
          (img, g2) = sample_image model token g1
      in case update_ax axs row (int i) (\<lambda>a. a\<lparr>shown := Some img\<rparr>) of
           Inl e \<Rightarrow> Inl e
         | Inr axs' \<Rightarrow> show_tokens model c row is (g2, axs'))"

text \<open>Lines 49 to 65: the progress line and, on request, one row of the grid.\<close>

definition checkpoint :: "('rng, 'tok, 'img) character_model \<Rightarrow> bool \<Rightarrow> int \<Rightarrow> nat
    \<Rightarrow> ('rng, 'img) loop_state \<Rightarrow> error + ('rng, 'img) loop_state" where
  "checkpoint model show_examples interval idx s =
     (if interval = 0 then Inl ZeroDivisionError
      else if int idx mod interval = 0 then
        (let s1 = s\<lparr>printed := printed s @ [idx]\<rparr>
         in if show_examples then
              (case show_tokens model (ctype s1) (int idx div interval) [0..<4] (rng s1, axes s1) of
                 Inl e \<Rightarrow> Inl e
               | Inr (g, axs) \<Rightarrow>
                   (case update_ax axs (int idx div interval) 0 (\<lambda>a. a\<lparr>ylabel := Some idx\<rparr>) of
                      Inl e \<Rightarrow> Inl e
                    | Inr axs' \<Rightarrow> Inr (s1\<lparr>rng := g, axes := axs'\<rparr>)))
            else Inr s1)
      else Inr s)"

text \<open>
  Lines 66 to 81: the score of the type as it is now is appended to the list, the
  gradients of the loss \<open>- score\<close> drive one Adam step, and the parameters are projected.
\<close>

definition train_step :: "('rng, 'tok, 'img) character_model \<Rightarrow> tensor option list \<Rightarrow> tensor option list
    \<Rightarrow> ('rng, 'img) loop_state \<Rightarrow> error + ('rng, 'img) loop_state" where
  "train_step model ls us s =
     (let c = ctype s;
          score = score_type model c;
          s1 = s\<lparr>score_list := score_list s @ [score]\<rparr>;
          (params1, opt1) = adam_step (optimizer s1) (\<lambda>k j. - score_grad model c k j) (parameters c)
      in case project params1 ls us of
           Inl e \<Rightarrow> Inl e
         | Inr params2 \<Rightarrow> Inr (s1\<lparr>ctype := c\<lparr>parameters := params2\<rparr>, optimizer := opt1\<rparr>))"

definition loop_body :: "('rng, 'tok, 'img) character_model \<Rightarrow> tensor option list \<Rightarrow> tensor option list
    \<Rightarrow> bool \<Rightarrow> int \<Rightarrow> nat \<Rightarrow> ('rng, 'img) loop_state \<Rightarrow> error + ('rng, 'img) loop_state" where
  "loop_body model ls us show_examples interval idx s =
     (case checkpoint model show_examples interval idx s of
        Inl e \<Rightarrow> Inl e
      | Inr s1 \<Rightarrow> train_step model ls us s1)"

text \<open>\<open>for idx in ...\<close>: the body runs on each index in turn and an error ends the run.\<close>

fun for_range :: "(nat \<Rightarrow> 's \<Rightarrow> error + 's) \<Rightarrow> nat list \<Rightarrow> 's \<Rightarrow> error + 's" where
  "for_range body [] s = Inr s"
| "for_range body (idx # idxs) s =
     (case body idx s of Inl e \<Rightarrow> Inl e | Inr s' \<Rightarrow> for_range body idxs s')"

text \<open>
  \<open>optimize_type\<close>. \<open>g\<close> is the state of the global random number generator at the
  call. The result is the final state of the loop: its \<open>score_list\<close> is the value
  returned, its \<open>ctype\<close> the type as the call leaves it. \<open>c.train ()\<close> changes no value.
\<close>

definition init_state :: "character_type \<Rightarrow> real \<Rightarrow> bool \<Rightarrow> 'rng \<Rightarrow> ('rng, 'img) loop_state" where
  "init_state c lr show_examples g =
     \<lparr>ctype = c,
      optimizer = Adam (parameters c) lr,
      score_list = [],
      printed = [],
      rng = g,
      axes = (if show_examples then subplots 10 4 else [])\<rparr>"

definition optimize_type :: "('rng, 'tok, 'img) character_model \<Rightarrow> character_type \<Rightarrow> real \<Rightarrow> int \<Rightarrow> real
    \<Rightarrow> bool \<Rightarrow> 'rng \<Rightarrow> error + ('rng, 'img) loop_state" where
  "optimize_type model c lr nb_iter eps show_examples g =
     (let nb_iter' = np_round nb_iter (- 1);
          interval = int_truediv nb_iter' 10
      in for_range (loop_body model (lbs c eps) (ubs c eps) show_examples interval)
           [0..<nat nb_iter'] (init_state c lr show_examples g))"

section \<open>Notions used in the statements\<close>

text \<open>
  The shape contract of section 3 of the specification, along the triples that \<open>zip\<close>
  pairs up: a bound that is present has as many elements as its parameter.
\<close>

definition bound_ok :: "tensor \<Rightarrow> tensor option \<Rightarrow> bool" where
  "bound_ok param b = (case b of None \<Rightarrow> True | Some t \<Rightarrow> length t = length param)"

fun shapes_ok :: "tensor list \<Rightarrow> tensor option list \<Rightarrow> tensor option list \<Rightarrow> bool" where
  "shapes_ok (param # params) (lb # ls) (ub # us) =
     (bound_ok param lb \<and> bound_ok param ub \<and> shapes_ok params ls us)"
| "shapes_ok params ls us = True"

text \<open>
  The projection of one element in the words of the specification: raised to the lower
  bound if there is one, then lowered to the upper bound if there is one.
\<close>

definition clamp :: "real option \<Rightarrow> real option \<Rightarrow> real \<Rightarrow> real" where
  "clamp lb ub x =
     (let y = (case lb of None \<Rightarrow> x | Some l \<Rightarrow> max x l)
      in case ub of None \<Rightarrow> y | Some u \<Rightarrow> min y u)"

definition bound_at :: "tensor option \<Rightarrow> nat \<Rightarrow> real option" where
  "bound_at b j = (case b of None \<Rightarrow> None | Some t \<Rightarrow> Some (t ! j))"

text \<open>
  A parameter list that already lies within its bounds, along the triples that \<open>zip\<close>
  pairs up: every element is at least its lower bound and at most its upper bound, where
  the bound is present.
\<close>

definition lower_ok :: "tensor \<Rightarrow> tensor option \<Rightarrow> bool" where
  "lower_ok param lb = (case lb of None \<Rightarrow> True | Some l \<Rightarrow> list_all2 (\<le>) l param)"

definition upper_ok :: "tensor \<Rightarrow> tensor option \<Rightarrow> bool" where
  "upper_ok param ub = (case ub of None \<Rightarrow> True | Some u \<Rightarrow> list_all2 (\<le>) param u)"

fun feasible :: "tensor list \<Rightarrow> tensor option list \<Rightarrow> tensor option list \<Rightarrow> bool" where
  "feasible (param # params) (lb # ls) (ub # us) =
     (lower_ok param lb \<and> upper_ok param ub \<and> feasible params ls us)"
| "feasible params ls us = True"

text \<open>The grid of \<open>plt.subplots (10, 4)\<close> has ten rows of four cells.\<close>

definition grid_ok :: "'img ax list list \<Rightarrow> bool" where
  "grid_ok axs = (length axs = 10 \<and> list_all (\<lambda>r. length r = 4) axs)"

text \<open>
  The loop of \<open>optimize_type\<close> stopped after its first \<open>k\<close> iterations: the state
  in which iteration \<open>k\<close> starts.
\<close>

definition iterations :: "('rng, 'tok, 'img) character_model \<Rightarrow> character_type \<Rightarrow> real \<Rightarrow> int \<Rightarrow> real
    \<Rightarrow> bool \<Rightarrow> 'rng \<Rightarrow> nat \<Rightarrow> error + ('rng, 'img) loop_state" where
  "iterations model c lr nb_iter eps show_examples g k =
     (let nb_iter' = np_round nb_iter (- 1);
          interval = int_truediv nb_iter' 10
      in for_range (loop_body model (lbs c eps) (ubs c eps) show_examples interval)
           [0..<k] (init_state c lr show_examples g))"

text \<open>
  The two results of a call: the list it returns, and the parameters of the type it has
  mutated.
\<close>

definition returned :: "error + ('rng, 'img) loop_state \<Rightarrow> error + real list" where
  "returned r = (case r of Inl e \<Rightarrow> Inl e | Inr s \<Rightarrow> Inr (score_list s))"

definition final_parameters :: "error + ('rng, 'img) loop_state \<Rightarrow> error + tensor list" where
  "final_parameters r = (case r of Inl e \<Rightarrow> Inl e | Inr s \<Rightarrow> Inr (parameters (ctype s)))"



text \<open>
  What a run leaves behind apart from the diagnostics: the type, the optimizer, the list
  of scores and the progress lines. The random number generator and the grid are left out.
\<close>

definition core :: "('rng, 'img) loop_state \<Rightarrow> character_type \<times> adam \<times> real list \<times> nat list" where
  "core s = (ctype s, optimizer s, score_list s, printed s)"

definition outcome :: "error + ('rng, 'img) loop_state
    \<Rightarrow> error + character_type \<times> adam \<times> real list \<times> nat list" where
  "outcome r = (case r of Inl e \<Rightarrow> Inl e | Inr s \<Rightarrow> Inr (core s))"

section \<open>Example inputs\<close>

text \<open>
  The scenario of section 8 of the specification: a model whose score is constant, and a
  type with one scalar parameter, \<open>1.5\<close> at the start, bounded to \<open>[0, 1]\<close>. The second
  model scores a type by \<open>- x\<close> where \<open>x\<close> is the first element of the first parameter;
  the derivative of its score in that element is \<open>- 1\<close>. The bounds of the second type are
  \<open>[0 + eps, 1 - eps]\<close>, which a tolerance above one half inverts.
\<close>

definition constant_model :: "(unit, unit, unit) character_model" where
  "constant_model =
     \<lparr>score_type = (\<lambda>c. 0), score_grad = (\<lambda>c k j. 0),
      sample_token = (\<lambda>c g. ((), g)), sample_image = (\<lambda>t g. ((), g))\<rparr>"

definition linear_model :: "(unit, unit, unit) character_model" where
  "linear_model =
     \<lparr>score_type = (\<lambda>c. - (parameters c ! 0 ! 0)),
      score_grad = (\<lambda>c k j. if k = 0 \<and> j = 0 then - 1 else 0),
      sample_token = (\<lambda>c g. ((), g)), sample_image = (\<lambda>t g. ((), g))\<rparr>"

definition unit_interval_type :: character_type where
  "unit_interval_type =
     \<lparr>parameters = [[3 / 2]], lbs = (\<lambda>eps. [Some [0]]), ubs = (\<lambda>eps. [Some [1]])\<rparr>"


section \<open>Rounding and the checkpoint interval\<close>

lemma rint_div_10_bounds: "\<bar>rint_div a 10 * 10 - a\<bar> \<le> 5"
  unfolding rint_div_def Let_def by (auto split: if_splits; presburger)

lemma np_round_near: "\<bar>np_round a (- 1) - a\<bar> \<le> 5"
  using rint_div_10_bounds [of a] by (simp add: np_round_def)

lemma np_round_dvd: "10 dvd np_round a (- 1)"
  by (simp add: np_round_def)

lemma np_round_nonneg: "0 \<le> a \<Longrightarrow> 0 \<le> np_round a (- 1)"
  unfolding np_round_def rint_div_def Let_def by (auto split: if_splits simp: pos_imp_zdiv_nonneg_iff)

lemma np_round_tie: "\<bar>np_round a (- 1) - a\<bar> = 5 \<Longrightarrow> 20 dvd np_round a (- 1)"
  unfolding np_round_def rint_div_def Let_def by (auto split: if_splits; presburger)

lemma np_round_nearest:
  assumes "10 dvd m"
  shows "\<bar>np_round a (- 1) - a\<bar> \<le> \<bar>m - a\<bar>"
proof -
  obtain r where r: "np_round a (- 1) = r" by simp
  have "10 dvd r" "\<bar>r - a\<bar> \<le> 5"
    using np_round_dvd [of a] np_round_near [of a] r by simp_all
  with assms have "\<bar>r - a\<bar> \<le> \<bar>m - a\<bar>"
    by presburger
  with r show ?thesis by simp
qed

lemma np_round_mod_20:
  "a mod 20 = 5 \<Longrightarrow> np_round a (- 1) = a - 5"
  "a mod 20 = 15 \<Longrightarrow> np_round a (- 1) = a + 5"
  unfolding np_round_def rint_div_def Let_def by (auto split: if_splits; presburger)+

lemma np_round_7: "np_round 7 (- 1) = 10"
  by (simp add: np_round_def rint_div_def)

lemma int_truediv_10: "int_truediv (10 * k) 10 = k"
  by (simp add: int_truediv_def abs_mult sgn_mult sgn_mult_abs)

lemma for_range_append:
  "for_range body (xs @ ys) s =
     (case for_range body xs s of Inl e \<Rightarrow> Inl e | Inr s' \<Rightarrow> for_range body ys s')"
  by (induction xs arbitrary: s) (auto split: sum.splits)

lemma for_range_Suc:
  "for_range body [0..<Suc k] s =
     (case for_range body [0..<k] s of Inl e \<Rightarrow> Inl e | Inr s' \<Rightarrow> body k s')"
  by (simp add: for_range_append split: sum.splits)

section \<open>The projection\<close>

lemma project_param_eq:
  "project_param p lb ub =
     (if bound_ok p lb \<and> bound_ok p ub
      then Inr (map (\<lambda>j. clamp (bound_at lb j) (bound_at ub j) (p ! j)) [0..<length p])
      else Inl RuntimeError)"
proof (cases lb; cases ub)
  fix l u assume "lb = Some l" "ub = Some u"
  then show ?thesis
    by (auto simp: project_param_def torch_max_def torch_min_def bound_ok_def clamp_def
        bound_at_def intro!: nth_equalityI)
next
  fix l assume "lb = Some l" "ub = None"
  then show ?thesis
    by (auto simp: project_param_def torch_max_def torch_min_def bound_ok_def clamp_def
        bound_at_def intro!: nth_equalityI)
next
  fix u assume "lb = None" "ub = Some u"
  then show ?thesis
    by (auto simp: project_param_def torch_max_def torch_min_def bound_ok_def clamp_def
        bound_at_def intro!: nth_equalityI)
next
  assume "lb = None" "ub = None"
  then show ?thesis
    by (auto simp: project_param_def bound_ok_def clamp_def bound_at_def intro!: nth_equalityI)
qed

lemma project_Inr_shapes:
  "project ps ls us = Inr ps' \<Longrightarrow> shapes_ok ps ls us \<and> map length ps' = map length ps"
proof (induction ps ls us arbitrary: ps' rule: project.induct)
  case (1 param params lb ls ub us)
  then show ?case
    by (auto simp: project_param_eq split: sum.splits if_splits)
qed auto

lemma project_total:
  "shapes_ok ps ls us \<Longrightarrow> \<exists>ps'. project ps ls us = Inr ps'"
proof (induction ps ls us rule: project.induct)
  case (1 param params lb ls ub us)
  then show ?case
    by (auto simp: project_param_eq split: sum.splits)
qed auto

lemma project_nth:
  "project ps ls us = Inr ps' \<Longrightarrow> k < length ps \<Longrightarrow> k < length ls \<Longrightarrow> k < length us
    \<Longrightarrow> project_param (ps ! k) (ls ! k) (us ! k) = Inr (ps' ! k)"
proof (induction ps ls us arbitrary: ps' k rule: project.induct)
  case (1 param params lb ls ub us)
  then show ?case
    by (cases k) (auto split: sum.splits)
qed auto

lemma project_nth_beyond:
  "project ps ls us = Inr ps' \<Longrightarrow> length ls \<le> k \<or> length us \<le> k \<Longrightarrow> ps' ! k = ps ! k"
proof (induction ps ls us arbitrary: ps' k rule: project.induct)
  case (1 param params lb ls ub us)
  then show ?case
    by (cases k) (auto split: sum.splits)
qed auto

lemma shapes_ok_no_bounds: "shapes_ok ps ls []" "shapes_ok ps [] us"
  by (cases ps; cases ls; simp)+

lemma shapes_ok_cong:
  "map length ps = map length ps' \<Longrightarrow> shapes_ok ps ls us = shapes_ok ps' ls us"
proof (induction ps ls us arbitrary: ps' rule: shapes_ok.induct)
  case (1 param params lb ls ub us)
  then obtain q qs where "ps' = q # qs" "length q = length param" "map length params = map length qs"
    by (cases ps') auto
  have "shapes_ok params ls us = shapes_ok qs ls us"
    using "1.IH" [of qs] \<open>map length params = map length qs\<close> by blast
  moreover have "bound_ok param b = bound_ok q b" for b
    using \<open>length q = length param\<close> by (cases b) (simp_all add: bound_ok_def)
  ultimately show ?case
    using \<open>ps' = q # qs\<close> by simp
qed (simp_all add: shapes_ok_no_bounds)

lemma adam_tensor_length: "length (adam_tensor lr t grad p m v) = length p"
  by (simp add: adam_tensor_def)

lemma adam_step_shapes:
  "map length (fst (adam_step opt grads params)) = map length params"
  by (rule nth_equalityI) (simp_all add: adam_step_def Let_def adam_tensor_length)

subsection \<open>Clamping one element\<close>

lemma clamp_simps:
  "clamp None None x = x" "clamp (Some l) None x = max x l"
  "clamp None (Some u) x = min x u" "clamp (Some l) (Some u) x = min (max x l) u"
  by (simp_all add: clamp_def)



lemma clamp_inverted: "u < l \<Longrightarrow> clamp (Some l) (Some u) x = u"
  by (simp add: clamp_def)

lemma clamp_feasible:
  "(\<And>l. lb = Some l \<Longrightarrow> l \<le> x) \<Longrightarrow> (\<And>u. ub = Some u \<Longrightarrow> x \<le> u) \<Longrightarrow> clamp lb ub x = x"
  by (cases lb; cases ub) (simp_all add: clamp_def)

lemma clamp_idem: "clamp lb ub (clamp lb ub x) = clamp lb ub x"
  by (cases lb; cases ub) (auto simp: clamp_def min_def max_def)

lemma project_param_feasible:
  assumes "lower_ok p lb" "upper_ok p ub"
  shows "project_param p lb ub = Inr p"
proof -
  have ok: "bound_ok p lb" "bound_ok p ub"
    using assms by (auto simp: lower_ok_def upper_ok_def bound_ok_def list_all2_lengthD split: option.splits)
  have "clamp (bound_at lb j) (bound_at ub j) (p ! j) = p ! j" if "j < length p" for j
    using assms that
    by (intro clamp_feasible) (auto simp: lower_ok_def upper_ok_def bound_at_def list_all2_nthD2 list_all2_nthD split: option.splits)
  then have "map (\<lambda>j. clamp (bound_at lb j) (bound_at ub j) (p ! j)) [0..<length p] = p"
    by (intro nth_equalityI) simp_all
  with ok show ?thesis
    by (simp add: project_param_eq)
qed

lemma project_feasible: "feasible ps ls us \<Longrightarrow> project ps ls us = Inr ps"
proof (induction ps ls us rule: project.induct)
  case (1 param params lb ls ub us)
  then show ?case
    by (simp add: project_param_feasible)
qed simp_all

lemma project_param_idem:
  assumes "project_param p lb ub = Inr p'"
  shows "project_param p' lb ub = Inr p'"
proof -
  from assms have ok: "bound_ok p lb" "bound_ok p ub"
    and p': "p' = map (\<lambda>j. clamp (bound_at lb j) (bound_at ub j) (p ! j)) [0..<length p]"
    by (auto simp: project_param_eq split: if_splits)
  from p' have len: "length p' = length p" by simp
  with ok have ok': "bound_ok p' lb" "bound_ok p' ub"
    by (auto simp: bound_ok_def split: option.splits)
  have "map (\<lambda>j. clamp (bound_at lb j) (bound_at ub j) (p' ! j)) [0..<length p'] = p'"
    using len by (intro nth_equalityI) (simp_all add: p' clamp_idem)
  with ok' show ?thesis
    by (simp add: project_param_eq)
qed

lemma project_idem: "project ps ls us = Inr ps' \<Longrightarrow> project ps' ls us = Inr ps'"
proof (induction ps ls us arbitrary: ps' rule: project.induct)
  case (1 param params lb ls ub us)
  then show ?case
    by (auto simp: project_param_idem split: sum.splits)
qed auto

lemma project_elem:
  assumes "project ps ls us = Inr ps'" "k < length ps" "k < length ls" "k < length us"
    "j < length (ps ! k)"
  shows "ps' ! k ! j = clamp (bound_at (ls ! k) j) (bound_at (us ! k) j) (ps ! k ! j)"
    and "bound_ok (ps ! k) (ls ! k)" and "bound_ok (ps ! k) (us ! k)"
proof -
  from project_nth [OF assms(1-4)]
  have "project_param (ps ! k) (ls ! k) (us ! k) = Inr (ps' ! k)" .
  then have "bound_ok (ps ! k) (ls ! k) \<and> bound_ok (ps ! k) (us ! k)
      \<and> ps' ! k = map (\<lambda>j. clamp (bound_at (ls ! k) j) (bound_at (us ! k) j) (ps ! k ! j)) [0..<length (ps ! k)]"
    by (auto simp: project_param_eq split: if_splits)
  with assms(5) show "ps' ! k ! j = clamp (bound_at (ls ! k) j) (bound_at (us ! k) j) (ps ! k ! j)"
    and "bound_ok (ps ! k) (ls ! k)" and "bound_ok (ps ! k) (us ! k)"
    by simp_all
qed

section \<open>One iteration\<close>

lemma optimize_type_iterations:
  "optimize_type model c lr nb_iter eps b g =
     iterations model c lr nb_iter eps b g (nat (np_round nb_iter (- 1)))"
  by (simp add: optimize_type_def iterations_def Let_def)

lemma np_index_ok: "0 \<le> i \<Longrightarrow> i < int n \<Longrightarrow> np_index n i = Inr (nat i)"
  by (simp add: np_index_def)

lemma grid_ok_update:
  assumes "grid_ok axs" "r < 10"
  shows "grid_ok (axs[r := (axs ! r)[c := a]])"
  using assms by (auto simp: grid_ok_def list_all_iff dest!: set_update_subset_insert [THEN subsetD])

lemma update_ax_ok:
  assumes "grid_ok axs" "0 \<le> row" "row < 10" "0 \<le> col" "col < 4"
  shows "\<exists>axs'. update_ax axs row col f = Inr axs' \<and> grid_ok axs'"
proof -
  have len: "length axs = 10"
    using assms(1) by (simp add: grid_ok_def)
  have r: "np_index (length axs) row = Inr (nat row)"
    using assms(2,3) len by (simp add: np_index_ok)
  have "nat row < length axs"
    using assms(2,3) len by simp
  then have "length (axs ! nat row) = 4"
    using assms(1) by (simp add: grid_ok_def list_all_length)
  then have c: "np_index (length (axs ! nat row)) col = Inr (nat col)"
    using assms(4,5) by (simp add: np_index_ok)
  have "nat row < 10"
    using assms(2,3) by simp
  then have "grid_ok (axs[nat row := (axs ! nat row)[nat col := f (axs ! nat row ! nat col)]])"
    using assms(1) by (rule grid_ok_update [rotated])
  then show ?thesis
    by (simp add: update_ax_def r c)
qed

lemma show_tokens_ok:
  assumes "0 \<le> row" "row < 10"
  shows "grid_ok axs \<Longrightarrow> list_all (\<lambda>i. i < 4) cols
    \<Longrightarrow> \<exists>g' axs'. show_tokens model c row cols (g, axs) = Inr (g', axs') \<and> grid_ok axs'"
proof (induction cols arbitrary: g axs)
  case Nil
  then show ?case by simp
next
  case (Cons i cols)
  obtain token g1 where t: "sample_token model c g = (token, g1)"
    by (cases "sample_token model c g")
  obtain img g2 where i: "sample_image model token g1 = (img, g2)"
    by (cases "sample_image model token g1")
  from Cons.prems have "int i < 4" by simp
  then obtain axs1 where u: "update_ax axs row (int i) (\<lambda>a. a\<lparr>shown := Some img\<rparr>) = Inr axs1"
    and g: "grid_ok axs1"
    using update_ax_ok [OF Cons.prems(1) assms, of "int i"] by auto
  from Cons.prems have "list_all (\<lambda>i. i < 4) cols" by simp
  from Cons.IH [OF g this, of g2] show ?case
    by (simp add: t i u)
qed

lemma checkpoint_ok:
  assumes "0 < m" "idx < 10 * m" "b \<Longrightarrow> grid_ok (axes s)"
  shows "\<exists>s'. checkpoint model b (int m) idx s = Inr s' \<and> ctype s' = ctype s
    \<and> optimizer s' = optimizer s \<and> score_list s' = score_list s
    \<and> printed s' = printed s @ (if idx mod m = 0 then [idx] else [])
    \<and> (b \<longrightarrow> grid_ok (axes s'))"
proof (cases "idx mod m = 0")
  case False
  then have "int idx mod int m \<noteq> 0"
    by (simp flip: of_nat_mod)
  with False assms show ?thesis
    by (simp add: checkpoint_def)
next
  case True
  then have mod0: "int idx mod int m = 0"
    by (simp flip: of_nat_mod)
  show ?thesis
  proof (cases b)
    case False
    with True mod0 assms(1) show ?thesis
      by (simp add: checkpoint_def)
  next
    case b: True
    have "idx div m < 10"
      using assms(1,2) by (simp add: less_mult_imp_div_less mult.commute)
    then have row: "0 \<le> int idx div int m" "int idx div int m < 10"
      by (simp_all flip: of_nat_div)
    have cols: "list_all (\<lambda>i. i < 4) [0..<4]"
      by (simp add: list_all_iff)
    from assms(3) b have g0: "grid_ok (axes s)" by simp
    obtain g1 axs1 where st: "show_tokens model (ctype s) (int idx div int m) [0..<4] (rng s, axes s) = Inr (g1, axs1)"
      and g1: "grid_ok axs1"
      using show_tokens_ok [OF row g0 cols, where model = model and c = "ctype s" and g = "rng s"] by auto
    obtain axs2 where up: "update_ax axs1 (int idx div int m) 0 (\<lambda>a. a\<lparr>ylabel := Some idx\<rparr>) = Inr axs2"
      and g2: "grid_ok axs2"
      using update_ax_ok [OF g1 row, of 0] by auto
    show ?thesis
      using True mod0 assms(1) b g2 by (simp add: checkpoint_def st up)
  qed
qed

lemma train_step_ok:
  assumes "shapes_ok (parameters (ctype s)) ls us"
  shows "\<exists>s'. train_step model ls us s = Inr s'
    \<and> score_list s' = score_list s @ [score_type model (ctype s)]
    \<and> map length (parameters (ctype s')) = map length (parameters (ctype s))
    \<and> printed s' = printed s \<and> axes s' = axes s \<and> rng s' = rng s"
proof -
  obtain params1 opt1 where a: "adam_step (optimizer s) (\<lambda>k j. - score_grad model (ctype s) k j)
      (parameters (ctype s)) = (params1, opt1)"
    by (cases "adam_step (optimizer s) (\<lambda>k j. - score_grad model (ctype s) k j) (parameters (ctype s))")
  have len1: "map length params1 = map length (parameters (ctype s))"
    using adam_step_shapes [of "optimizer s" "\<lambda>k j. - score_grad model (ctype s) k j" "parameters (ctype s)"]
    by (simp add: a)
  then have "shapes_ok params1 ls us"
    using assms shapes_ok_cong by blast
  then obtain params2 where p: "project params1 ls us = Inr params2"
    using project_total by blast
  then have "map length params2 = map length params1"
    using project_Inr_shapes by blast
  with len1 show ?thesis
    by (simp add: train_step_def Let_def a p)
qed

lemma loop_body_ok:
  assumes "shapes_ok (parameters (ctype s)) ls us" "0 < m" "idx < 10 * m" "b \<Longrightarrow> grid_ok (axes s)"
  shows "\<exists>s'. loop_body model ls us b (int m) idx s = Inr s'
    \<and> score_list s' = score_list s @ [score_type model (ctype s)]
    \<and> map length (parameters (ctype s')) = map length (parameters (ctype s))
    \<and> printed s' = printed s @ (if idx mod m = 0 then [idx] else [])
    \<and> (b \<longrightarrow> grid_ok (axes s'))"
proof -
  obtain s1 where c: "checkpoint model b (int m) idx s = Inr s1" "ctype s1 = ctype s"
    "score_list s1 = score_list s" "printed s1 = printed s @ (if idx mod m = 0 then [idx] else [])"
    "b \<longrightarrow> grid_ok (axes s1)"
    using checkpoint_ok [OF assms(2,3,4), where model = model] by auto
  from assms(1) c(2) have "shapes_ok (parameters (ctype s1)) ls us"
    by simp
  from train_step_ok [OF this, where model = model] obtain s' where t: "train_step model ls us s1 = Inr s'"
    "score_list s' = score_list s1 @ [score_type model (ctype s1)]"
    "map length (parameters (ctype s')) = map length (parameters (ctype s1))"
    "printed s' = printed s1" "axes s' = axes s1"
    by blast
  then show ?thesis
    using c by (simp add: loop_body_def)
qed

section \<open>The whole loop\<close>

lemma grid_ok_subplots: "grid_ok (subplots 10 4)"
  by (simp add: grid_ok_def subplots_def list_all_length)

lemma run_prefix:
  assumes "shapes_ok (parameters c) ls us" "0 < m"
  shows "k \<le> 10 * m \<Longrightarrow>
    \<exists>s. for_range (loop_body model ls us b (int m)) [0..<k] (init_state c lr b g) = Inr s
      \<and> length (score_list s) = k
      \<and> map length (parameters (ctype s)) = map length (parameters c)
      \<and> printed s = filter (\<lambda>i. i mod m = 0) [0..<k]
      \<and> (b \<longrightarrow> grid_ok (axes s))"
proof (induction k)
  case 0
  show ?case
    by (simp add: init_state_def grid_ok_subplots)
next
  case (Suc k)
  then obtain s where s: "for_range (loop_body model ls us b (int m)) [0..<k] (init_state c lr b g) = Inr s"
    "length (score_list s) = k" "map length (parameters (ctype s)) = map length (parameters c)"
    "printed s = filter (\<lambda>i. i mod m = 0) [0..<k]" "b \<longrightarrow> grid_ok (axes s)"
    by auto
  have sh: "shapes_ok (parameters (ctype s)) ls us"
    using assms(1) s(3) shapes_ok_cong by blast
  have "k < 10 * m" "b \<Longrightarrow> grid_ok (axes s)"
    using Suc.prems s(5) by simp_all
  from loop_body_ok [OF sh assms(2) this, where model = model]
  obtain s' where s': "loop_body model ls us b (int m) k s = Inr s'"
    "score_list s' = score_list s @ [score_type model (ctype s)]"
    "map length (parameters (ctype s')) = map length (parameters (ctype s))"
    "printed s' = printed s @ (if k mod m = 0 then [k] else [])"
    "b \<longrightarrow> grid_ok (axes s')"
    by auto
  have "for_range (loop_body model ls us b (int m)) [0..<Suc k] (init_state c lr b g) = Inr s'"
    using s(1) s'(1) by (simp add: for_range_Suc del: upt_Suc)
  moreover have "printed s' = filter (\<lambda>i. i mod m = 0) [0..<Suc k]"
    using s(4) s'(4) by simp
  ultimately show ?case
    using s(2,3) s'(2,3,5) by (intro exI [of _ s']) simp
qed

lemma run_prefix_scores:
  assumes "shapes_ok (parameters c) ls us" "0 < m"
  shows "k \<le> 10 * m \<Longrightarrow> i \<le> k
    \<Longrightarrow> for_range (loop_body model ls us b (int m)) [0..<k] (init_state c lr b g) = Inr s
    \<Longrightarrow> \<exists>t. for_range (loop_body model ls us b (int m)) [0..<i] (init_state c lr b g) = Inr t
          \<and> score_list t = take i (score_list s)
          \<and> (i < k \<longrightarrow> score_list s ! i = score_type model (ctype t))"
proof (induction k arbitrary: s)
  case 0
  then show ?case by (auto simp: init_state_def)
next
  case (Suc k)
  from Suc.prems(1) have k: "k \<le> 10 * m" "k < 10 * m" by simp_all
  from run_prefix [OF assms k(1), where model = model and b = b and lr = lr and g = g]
  obtain sk where sk: "for_range (loop_body model ls us b (int m)) [0..<k] (init_state c lr b g) = Inr sk"
    "length (score_list sk) = k" "map length (parameters (ctype sk)) = map length (parameters c)"
    "b \<longrightarrow> grid_ok (axes sk)"
    by auto
  have sh: "shapes_ok (parameters (ctype sk)) ls us"
    using assms(1) sk(3) shapes_ok_cong by blast
  have "b \<Longrightarrow> grid_ok (axes sk)"
    using sk(4) by simp
  from loop_body_ok [OF sh assms(2) k(2) this, where model = model]
  obtain s' where s': "loop_body model ls us b (int m) k sk = Inr s'"
    "score_list s' = score_list sk @ [score_type model (ctype sk)]"
    by auto
  from Suc.prems(3) sk(1) s'(1) have "s' = s"
    by (simp add: for_range_Suc del: upt_Suc)
  with s'(2) have sc: "score_list s = score_list sk @ [score_type model (ctype sk)]"
    by simp
  show ?case
  proof (cases "i = Suc k")
    case True
    with Suc.prems(3) sc sk(2) show ?thesis
      by simp
  next
    case False
    with Suc.prems(2) have ik: "i \<le> k" by simp
    from Suc.IH [OF k(1) ik sk(1)]
    obtain t where t: "for_range (loop_body model ls us b (int m)) [0..<i] (init_state c lr b g) = Inr t"
      "score_list t = take i (score_list sk)" "i < k \<longrightarrow> score_list sk ! i = score_type model (ctype t)"
      by auto
    have "score_list s ! i = score_type model (ctype t)"
    proof (cases "i < k")
      case True
      with t(3) sc sk(2) show ?thesis
        by (simp add: nth_append)
    next
      case False
      with ik have "i = k" by simp
      with t(1) sk(1) have "t = sk" by simp
      with \<open>i = k\<close> sc sk(2) show ?thesis
        by (simp add: nth_append)
    qed
    with t(1,2) ik sc sk(2) show ?thesis
      by auto
  qed
qed

lemma rounded_cases:
  obtains "np_round nb_iter (- 1) \<le> 0"
  | m where "0 < m" "np_round nb_iter (- 1) = 10 * int m"
      "int_truediv (np_round nb_iter (- 1)) 10 = int m" "nat (np_round nb_iter (- 1)) = 10 * m"
proof (cases "np_round nb_iter (- 1) \<le> 0")
  case True
  then show ?thesis by (rule that(1))
next
  case False
  obtain q where q: "np_round nb_iter (- 1) = 10 * q"
    using np_round_dvd [of nb_iter] by (auto simp: dvd_def)
  with False have "0 < q" by simp
  then have "0 < nat q" "q = int (nat q)" by simp_all
  moreover from this q have "int_truediv (np_round nb_iter (- 1)) 10 = int (nat q)"
    by (simp add: int_truediv_10)
  moreover from q \<open>0 < q\<close> have "nat (np_round nb_iter (- 1)) = 10 * nat q"
    by (simp add: nat_mult_distrib)
  ultimately show ?thesis
    using q that(2) by metis
qed

lemma iterations_ok:
  assumes "shapes_ok (parameters c) (lbs c eps) (ubs c eps)" "k \<le> nat (np_round nb_iter (- 1))"
  shows "\<exists>s. iterations model c lr nb_iter eps b g k = Inr s
      \<and> length (score_list s) = k
      \<and> map length (parameters (ctype s)) = map length (parameters c)
      \<and> (b \<longrightarrow> grid_ok (axes s))"
proof (cases nb_iter rule: rounded_cases)
  case 1
  with assms(2) have "k = 0" by simp
  then show ?thesis
    by (simp add: iterations_def init_state_def grid_ok_subplots)
next
  case (2 m)
  with assms(2) have "k \<le> 10 * m" by simp
  from run_prefix [OF assms(1) 2(1) this, where model = model and b = b and lr = lr and g = g]
  show ?thesis
    using 2(3) by (auto simp: iterations_def)
qed

lemma iterations_scores:
  assumes "shapes_ok (parameters c) (lbs c eps) (ubs c eps)" "k \<le> nat (np_round nb_iter (- 1))"
    "i \<le> k" "iterations model c lr nb_iter eps b g k = Inr s"
  shows "\<exists>t. iterations model c lr nb_iter eps b g i = Inr t
          \<and> score_list t = take i (score_list s)
          \<and> (i < k \<longrightarrow> score_list s ! i = score_type model (ctype t))"
proof (cases nb_iter rule: rounded_cases)
  case 1
  with assms(2,3) have "k = 0" "i = 0" by simp_all
  with assms(4) show ?thesis
    by (auto simp: iterations_def init_state_def)
next
  case (2 m)
  with assms(2) have k: "k \<le> 10 * m" by simp
  from assms(4) 2(3)
  have "for_range (loop_body model (lbs c eps) (ubs c eps) b (int m)) [0..<k] (init_state c lr b g) = Inr s"
    by (simp add: iterations_def)
  from run_prefix_scores [OF assms(1) 2(1) k assms(3) this]
  show ?thesis
    using 2(3) by (simp add: iterations_def)
qed

section \<open>Checkpoints and diagnostics\<close>

lemma filter_multiples:
  assumes "0 < m"
  shows "filter (\<lambda>i. i mod m = 0) [0..<k * m] = map (\<lambda>r. r * m) [0..<k]"
proof (induction k)
  case 0
  show ?case by simp
next
  case (Suc k)
  have "[0..<k * m + m] = [0..<k * m] @ [k * m..<k * m + m]"
    by (rule upt_add_eq_append) simp
  moreover have "Suc k * m = k * m + m"
    by simp
  ultimately have split: "[0..<Suc k * m] = [0..<k * m] @ [k * m..<k * m + m]"
    by (simp only:)
  have first: "[k * m..<k * m + m] = k * m # [Suc (k * m)..<k * m + m]"
    using assms by (simp add: upt_conv_Cons)
  have "i mod m \<noteq> 0" if "i \<in> set [Suc (k * m)..<k * m + m]" for i
  proof -
    define d where "d = i - k * m"
    from that have "k * m < i" "i < k * m + m"
      by simp_all
    then have d: "i = k * m + d" "0 < d" "d < m"
      by (simp_all add: d_def)
    have "(k * m + d) mod m = d"
      using d(3) by simp
    with d(1,2) show ?thesis
      by simp
  qed
  then have "filter (\<lambda>i. i mod m = 0) [Suc (k * m)..<k * m + m] = []"
    by (simp add: filter_empty_conv)
  then have block: "filter (\<lambda>i. i mod m = 0) [k * m..<k * m + m] = [k * m]"
    by (simp add: first)
  have "filter (\<lambda>i. i mod m = 0) [0..<Suc k * m]
      = filter (\<lambda>i. i mod m = 0) [0..<k * m] @ filter (\<lambda>i. i mod m = 0) [k * m..<k * m + m]"
    by (simp only: split filter_append)
  also have "\<dots> = map (\<lambda>r. r * m) [0..<k] @ [k * m]"
    by (simp only: Suc.IH block)
  also have "\<dots> = map (\<lambda>r. r * m) [0..<Suc k]"
    by simp
  finally show ?case .
qed

lemma train_step_outcome:
  assumes "core s = core t"
  shows "outcome (train_step model ls us s) = outcome (train_step model ls us t)"
proof -
  from assms have eq: "ctype s = ctype t" "optimizer s = optimizer t"
    "score_list s = score_list t" "printed s = printed t"
    by (simp_all add: core_def)
  obtain params1 opt1 where a: "adam_step (optimizer t) (\<lambda>k j. - score_grad model (ctype t) k j)
      (parameters (ctype t)) = (params1, opt1)"
    by (cases "adam_step (optimizer t) (\<lambda>k j. - score_grad model (ctype t) k j) (parameters (ctype t))")
  show ?thesis
  proof (cases "project params1 ls us")
    case (Inl e)
    then show ?thesis
      by (simp add: train_step_def Let_def eq a outcome_def)
  next
    case (Inr params2)
    then show ?thesis
      by (simp add: train_step_def Let_def eq a outcome_def core_def)
  qed
qed

lemma train_step_axes:
  assumes "train_step model ls us s = Inr s'"
  shows "axes s' = axes s"
proof -
  obtain params1 opt1 where a: "adam_step (optimizer s) (\<lambda>k j. - score_grad model (ctype s) k j)
      (parameters (ctype s)) = (params1, opt1)"
    by (cases "adam_step (optimizer s) (\<lambda>k j. - score_grad model (ctype s) k j) (parameters (ctype s))")
  show ?thesis
  proof (cases "project params1 ls us")
    case (Inl e)
    with assms show ?thesis
      by (simp add: train_step_def Let_def a)
  next
    case (Inr params2)
    with assms show ?thesis
      by (auto simp: train_step_def Let_def a)
  qed
qed

lemma loop_body_outcome:
  assumes "0 < m" "idx < 10 * m" "grid_ok (axes s)" "core s = core t"
  shows "outcome (loop_body model ls us True (int m) idx s)
      = outcome (loop_body model ls us False (int m) idx t)"
    and "loop_body model ls us True (int m) idx s = Inr s' \<Longrightarrow> grid_ok (axes s')"
proof -
  from checkpoint_ok [OF assms(1,2), where b = True and s = s and model = model] assms(3)
  obtain s1 where s1: "checkpoint model True (int m) idx s = Inr s1" "ctype s1 = ctype s"
    "optimizer s1 = optimizer s" "score_list s1 = score_list s"
    "printed s1 = printed s @ (if idx mod m = 0 then [idx] else [])" "grid_ok (axes s1)"
    by auto
  from checkpoint_ok [OF assms(1,2), where b = False and s = t and model = model]
  obtain t1 where t1: "checkpoint model False (int m) idx t = Inr t1" "ctype t1 = ctype t"
    "optimizer t1 = optimizer t" "score_list t1 = score_list t"
    "printed t1 = printed t @ (if idx mod m = 0 then [idx] else [])"
    by auto
  from assms(4) s1(2-5) t1(2-5) have "core s1 = core t1"
    by (simp add: core_def)
  from train_step_outcome [OF this, of model ls us]
  show "outcome (loop_body model ls us True (int m) idx s)
      = outcome (loop_body model ls us False (int m) idx t)"
    by (simp add: loop_body_def s1(1) t1(1))
  show "grid_ok (axes s')" if "loop_body model ls us True (int m) idx s = Inr s'"
    using that s1(1,6) by (auto simp: loop_body_def dest: train_step_axes)
qed

lemma for_range_outcome:
  assumes "0 < m"
  shows "list_all (\<lambda>idx. idx < 10 * m) idxs \<Longrightarrow> grid_ok (axes s) \<Longrightarrow> core s = core t
    \<Longrightarrow> outcome (for_range (loop_body model ls us True (int m)) idxs s)
        = outcome (for_range (loop_body model ls us False (int m)) idxs t)"
proof (induction idxs arbitrary: s t)
  case Nil
  then show ?case by (simp add: outcome_def)
next
  case (Cons idx idxs)
  from Cons.prems(1) have idx: "idx < 10 * m" and rest: "list_all (\<lambda>idx. idx < 10 * m) idxs"
    by simp_all
  note step = loop_body_outcome [OF assms idx Cons.prems(2,3), where model = model and ls = ls and us = us]
  show ?case
  proof (cases "loop_body model ls us True (int m) idx s")
    case (Inl e)
    with step(1) have "loop_body model ls us False (int m) idx t = Inl e"
      by (simp add: outcome_def split: sum.splits)
    with Inl show ?thesis
      by (simp add: outcome_def)
  next
    case (Inr s')
    with step(1) obtain t' where t': "loop_body model ls us False (int m) idx t = Inr t'"
      "core s' = core t'"
      by (auto simp: outcome_def split: sum.splits)
    from step(2) [OF Inr] have "grid_ok (axes s')" .
    from Cons.IH [OF rest this t'(2)] Inr t'(1) show ?thesis
      by simp
  qed
qed

lemma optimize_type_outcome:
  "outcome (optimize_type model c lr nb_iter eps True g)
     = outcome (optimize_type model c lr nb_iter eps False g)"
proof (cases nb_iter rule: rounded_cases)
  case 1
  then show ?thesis
    by (simp add: optimize_type_def outcome_def core_def init_state_def)
next
  case (2 m)
  have "outcome (for_range (loop_body model (lbs c eps) (ubs c eps) True (int m)) [0..<10 * m]
        (init_state c lr True g))
      = outcome (for_range (loop_body model (lbs c eps) (ubs c eps) False (int m)) [0..<10 * m]
        (init_state c lr False g))"
    by (rule for_range_outcome [OF 2(1)])
      (simp_all add: list_all_iff init_state_def grid_ok_subplots core_def)
  then show ?thesis
    using 2(3,4) by (simp add: optimize_type_def)
qed

section \<open>The example inputs, evaluated\<close>

lemma unit_interval_shapes:
  "shapes_ok (parameters unit_interval_type) (lbs unit_interval_type eps) (ubs unit_interval_type eps)"
  by (simp add: unit_interval_type_def bound_ok_def)


lemma constant_ten:
  "final_parameters (optimize_type constant_model unit_interval_type (1 / 1000) 7 (1 / 10000) False ()) = Inr [[1]]"
  by (simp add: optimize_type_def np_round_def rint_div_def int_truediv_def loop_body_def checkpoint_def
      train_step_def init_state_def final_parameters_def constant_model_def unit_interval_type_def
      adam_step_def Adam_def adam_tensor_def adam_elem_def Let_def
      project_param_def torch_max_def torch_min_def adam_eps_def eval_nat_numeral)



section \<open>The claims\<close>

text \<open>
  C9. For a count that double precision holds exactly (below \<open>2 ^ 53\<close> in absolute
  value) the count is rounded to a multiple of ten at most five away, and a count halfway
  between two multiples goes to the even one: 5 rounds to 0, so that call returns an empty
  list, and 15 rounds to 20; a count that ends in 5 after an even tens digit rounds down,
  after an odd one up.
\<close>

theorem np_round_half_to_even:
  assumes "\<bar>n\<bar> < 2 ^ 53"
  shows "np_round 5 (- 1) = 0 \<and> np_round 15 (- 1) = 20
   \<and> (n mod 20 = 5 \<longrightarrow> np_round n (- 1) = n - 5)
   \<and> (n mod 20 = 15 \<longrightarrow> np_round n (- 1) = n + 5)
   \<and> 10 dvd np_round n (- 1) \<and> \<bar>np_round n (- 1) - n\<bar> \<le> 5
   \<and> returned (optimize_type model c lr 5 eps show_examples g) = Inr []"
proof -
  have "np_round 5 (- 1) = 0" "np_round 15 (- 1) = 20"
    by (simp_all add: np_round_def rint_div_def)
  moreover have "returned (optimize_type model c lr 5 eps show_examples g) = Inr []"
    using \<open>np_round 5 (- 1) = 0\<close> by (simp add: optimize_type_def returned_def init_state_def)
  ultimately show ?thesis
    using np_round_mod_20 [of n] np_round_dvd [of n] np_round_near [of n]
    by blast
qed

theorem np_round_half_to_even_witness:
  "\<bar>25\<bar> < (2::int) ^ 53 \<and> \<bar>35\<bar> < (2::int) ^ 53
   \<and> np_round 25 (- 1) = 20 \<and> np_round 35 (- 1) = 40
   \<and> np_round 5 (- 1) = 0 \<and> np_round 15 (- 1) = 20"
proof -
  have b: "\<bar>25\<bar> < (2::int) ^ 53" "\<bar>35\<bar> < (2::int) ^ 53"
    by simp_all
  note h = np_round_half_to_even [where model = constant_model and c = unit_interval_type
      and lr = "1 / 1000" and eps = "1 / 10000" and show_examples = False and g = "()"]
  from h [OF b(1)] have "np_round 25 (- 1) = 20" "np_round 5 (- 1) = 0" "np_round 15 (- 1) = 20"
    by simp_all
  moreover from h [OF b(2)] have "np_round 35 (- 1) = 40"
    by simp
  ultimately show ?thesis
    using b by blast
qed

text \<open>
  C1. For a count that double precision holds exactly (below \<open>2 ^ 53\<close> in absolute
  value) and bounds of the shapes of their parameters, \<open>optimize_type\<close> returns, and the
  returned list has as many entries as the rounded count (none when the rounded count is
  negative; for a count that is not negative the length is the rounded count itself).
  The rounded count is a multiple of ten, no multiple of ten is nearer to the count, and
  it is the even multiple when the count lies halfway. Every iteration appends one entry:
  after \<open>i\<close> iterations the list is the first \<open>i\<close> entries of the returned list.
\<close>

theorem trajectory_length:
  assumes "shapes_ok (parameters c) (lbs c eps) (ubs c eps)" and "\<bar>nb_iter\<bar> < 2 ^ 53"
  shows "\<exists>s. optimize_type model c lr nb_iter eps show_examples g = Inr s
    \<and> length (score_list s) = nat (np_round nb_iter (- 1))
    \<and> (0 \<le> nb_iter \<longrightarrow> int (length (score_list s)) = np_round nb_iter (- 1))
    \<and> 10 dvd np_round nb_iter (- 1)
    \<and> (\<forall>m. 10 dvd m \<longrightarrow> \<bar>np_round nb_iter (- 1) - nb_iter\<bar> \<le> \<bar>m - nb_iter\<bar>)
    \<and> (\<bar>np_round nb_iter (- 1) - nb_iter\<bar> = 5 \<longrightarrow> 20 dvd np_round nb_iter (- 1))
    \<and> (\<forall>i \<le> length (score_list s).
          returned (iterations model c lr nb_iter eps show_examples g i) = Inr (take i (score_list s)))"
proof -
  let ?n = "nat (np_round nb_iter (- 1))"
  from iterations_ok [OF assms(1) order_refl, where model = model and lr = lr and b = show_examples and g = g]
  obtain s where s: "iterations model c lr nb_iter eps show_examples g ?n = Inr s"
    "length (score_list s) = ?n"
    by auto
  have "returned (iterations model c lr nb_iter eps show_examples g i) = Inr (take i (score_list s))"
    if "i \<le> length (score_list s)" for i
  proof -
    from that s(2) have "i \<le> ?n" by simp
    from iterations_scores [OF assms(1) order_refl this s(1)] show ?thesis
      by (auto simp: returned_def)
  qed
  then have prefix: "\<forall>i \<le> length (score_list s).
      returned (iterations model c lr nb_iter eps show_examples g i) = Inr (take i (score_list s))"
    by blast
  have len: "0 \<le> nb_iter \<longrightarrow> int (length (score_list s)) = np_round nb_iter (- 1)"
    using s(2) np_round_nonneg [of nb_iter] by simp
  have near: "\<forall>m. 10 dvd m \<longrightarrow> \<bar>np_round nb_iter (- 1) - nb_iter\<bar> \<le> \<bar>m - nb_iter\<bar>"
    using np_round_nearest by blast
  have tie: "\<bar>np_round nb_iter (- 1) - nb_iter\<bar> = 5 \<longrightarrow> 20 dvd np_round nb_iter (- 1)"
    using np_round_tie by blast
  have run: "optimize_type model c lr nb_iter eps show_examples g = Inr s"
    using s(1) by (simp add: optimize_type_iterations)
  from run s(2) len np_round_dvd [of nb_iter] near tie prefix show ?thesis
    by blast
qed

theorem trajectory_length_witness:
  "shapes_ok (parameters unit_interval_type) (lbs unit_interval_type (1 / 10000))
     (ubs unit_interval_type (1 / 10000))
   \<and> \<bar>27\<bar> < (2::int) ^ 53
   \<and> (\<exists>s. optimize_type constant_model unit_interval_type (1 / 1000) 27 (1 / 10000) True () = Inr s
        \<and> length (score_list s) = 30
        \<and> returned (iterations constant_model unit_interval_type (1 / 1000) 27 (1 / 10000) True () 3)
            = Inr (take 3 (score_list s)))"
proof -
  have r: "np_round 27 (- 1) = 30"
    by (simp add: np_round_def rint_div_def)
  have b: "\<bar>27\<bar> < (2::int) ^ 53"
    by simp
  from trajectory_length [OF unit_interval_shapes b, where eps = "1 / 10000" and model = constant_model
      and lr = "1 / 1000" and show_examples = True and g = "()"]
  obtain s where s: "optimize_type constant_model unit_interval_type (1 / 1000) 27 (1 / 10000) True () = Inr s"
    "length (score_list s) = 30"
    "\<forall>i \<le> length (score_list s).
       returned (iterations constant_model unit_interval_type (1 / 1000) 27 (1 / 10000) True () i)
         = Inr (take i (score_list s))"
    by (auto simp: r)
  from s(2,3) have "returned (iterations constant_model unit_interval_type (1 / 1000) 27 (1 / 10000) True () 3)
      = Inr (take 3 (score_list s))"
    by simp
  with s(1,2) unit_interval_shapes b show ?thesis
    by blast
qed

text \<open>
  C6. When the count rounds to zero the loop body never runs: the call returns the state
  it started from, with an empty list, nothing printed and the parameters as they were.
  The interval \<open>int (nb_iter / 10)\<close> is computed by a division by ten and is zero.
\<close>

theorem zero_rounds_no_iteration:
  assumes "np_round nb_iter (- 1) = 0"
  shows "optimize_type model c lr nb_iter eps show_examples g = Inr (init_state c lr show_examples g)
    \<and> returned (optimize_type model c lr nb_iter eps show_examples g) = Inr []
    \<and> final_parameters (optimize_type model c lr nb_iter eps show_examples g) = Inr (parameters c)
    \<and> printed (init_state c lr show_examples g) = []
    \<and> int_truediv (np_round nb_iter (- 1)) 10 = 0"
  using assms
  by (simp add: optimize_type_def returned_def final_parameters_def init_state_def int_truediv_def)

theorem zero_rounds_no_iteration_witness:
  "np_round 3 (- 1) = 0
   \<and> optimize_type constant_model unit_interval_type (1 / 1000) 3 (1 / 10000) True ()
       = Inr (init_state unit_interval_type (1 / 1000) True ())
   \<and> returned (optimize_type constant_model unit_interval_type (1 / 1000) 3 (1 / 10000) True ()) = Inr []
   \<and> final_parameters (optimize_type constant_model unit_interval_type (1 / 1000) 3 (1 / 10000) True ())
       = Inr [[3 / 2]]"
proof -
  have r: "np_round 3 (- 1) = 0"
    by (simp add: np_round_def rint_div_def)
  have p: "parameters unit_interval_type = [[3 / 2]]"
    by (simp add: unit_interval_type_def)
  from zero_rounds_no_iteration [OF r, where model = constant_model and c = unit_interval_type
      and lr = "1 / 1000" and eps = "1 / 10000" and show_examples = True and g = "()"]
  show ?thesis
    using r p by (elim conjE, intro conjI) simp_all
qed

text \<open>
  C5. A count of 7 rounds to 10, not to 0. With the constant model and the parameter that
  starts at \<open>1.5\<close> the returned list is not empty and the parameter ends at \<open>1\<close>.
\<close>

theorem nb_iter_7_counterexample:
  "np_round 7 (- 1) = 10
   \<and> returned (optimize_type constant_model unit_interval_type (1 / 1000) 7 (1 / 10000) False ())
       \<noteq> Inr []
   \<and> final_parameters (optimize_type constant_model unit_interval_type (1 / 1000) 7 (1 / 10000) False ())
       = Inr [[1]]
   \<and> parameters unit_interval_type = [[3 / 2]]"
proof -
  have "nat (np_round 7 (- 1)) \<le> nat (np_round 7 (- 1))" by simp
  from iterations_ok [OF unit_interval_shapes this,
      where model = constant_model and lr = "1 / 1000" and b = False and g = "()" and eps = "1 / 10000"]
  obtain s where "optimize_type constant_model unit_interval_type (1 / 1000) 7 (1 / 10000) False () = Inr s"
    "length (score_list s) = 10"
    by (auto simp: optimize_type_iterations np_round_7)
  then have "returned (optimize_type constant_model unit_interval_type (1 / 1000) 7 (1 / 10000) False ())
      \<noteq> Inr []"
    by (auto simp: returned_def)
  then show ?thesis
    by (simp add: np_round_7 constant_ten) (simp add: unit_interval_type_def)
qed

text \<open>
  C5, as the code has it: a count of 7 rounds to 10, the call is the loop run for ten
  iterations, and the returned list has ten entries.
\<close>

theorem nb_iter_7_runs_ten:
  assumes "shapes_ok (parameters c) (lbs c eps) (ubs c eps)"
  shows "np_round 7 (- 1) = 10
    \<and> optimize_type model c lr 7 eps show_examples g = iterations model c lr 7 eps show_examples g 10
    \<and> (\<exists>s. optimize_type model c lr 7 eps show_examples g = Inr s \<and> length (score_list s) = 10)"
proof -
  have "(10::nat) \<le> nat (np_round 7 (- 1))"
    by (simp add: np_round_7)
  from iterations_ok [OF assms this, where model = model and lr = lr and b = show_examples and g = g]
  show ?thesis
    by (auto simp: optimize_type_iterations np_round_7)
qed

theorem nb_iter_7_runs_ten_witness:
  "shapes_ok (parameters unit_interval_type) (lbs unit_interval_type (1 / 10000))
     (ubs unit_interval_type (1 / 10000))
   \<and> (\<exists>s. optimize_type linear_model unit_interval_type (1 / 1000) 7 (1 / 10000) True () = Inr s
        \<and> length (score_list s) = 10)"
  using nb_iter_7_runs_ten [OF unit_interval_shapes, where eps = "1 / 10000" and model = linear_model
      and lr = "1 / 1000" and show_examples = True and g = "()"]
    unit_interval_shapes
  by blast




text \<open>
  C3. When the bounds have the shapes of their parameters the projection returns, shapes
  unchanged, and every element of every parameter that \<open>zip\<close> reaches becomes
  \<open>min (max x lb) ub\<close>, an absent bound leaving the value as it is; where the lower bound
  exceeds the upper bound the element ends at the upper bound. A parameter beyond the
  shorter of the two bound lists is not touched.
\<close>

theorem projection_clamps:
  assumes "shapes_ok params ls us"
  shows "\<exists>params'. project params ls us = Inr params' \<and> map length params' = map length params
    \<and> (\<forall>k < length params. \<forall>j < length (params ! k).
          (k < length ls \<and> k < length us \<longrightarrow>
             params' ! k ! j = clamp (bound_at (ls ! k) j) (bound_at (us ! k) j) (params ! k ! j)
             \<and> (\<forall>l u. ls ! k = Some l \<and> us ! k = Some u \<and> u ! j < l ! j \<longrightarrow> params' ! k ! j = u ! j))
          \<and> (length ls \<le> k \<or> length us \<le> k \<longrightarrow> params' ! k ! j = params ! k ! j))
    \<and> (\<forall>l u x. clamp (Some l) (Some u) x = min (max x l) u \<and> clamp (Some l) None x = max x l
          \<and> clamp None (Some u) x = min x u \<and> clamp None None x = x)"
proof -
  from project_total [OF assms] obtain params' where p: "project params ls us = Inr params'"
    by blast
  have len: "map length params' = map length params"
    using project_Inr_shapes [OF p] by simp
  have a: "params' ! k ! j = clamp (bound_at (ls ! k) j) (bound_at (us ! k) j) (params ! k ! j)
      \<and> (\<forall>l u. ls ! k = Some l \<and> us ! k = Some u \<and> u ! j < l ! j \<longrightarrow> params' ! k ! j = u ! j)"
    if "k < length params" "j < length (params ! k)" "k < length ls" "k < length us" for k j
    using project_elem(1) [OF p that(1,3,4,2)] by (auto simp: bound_at_def clamp_inverted)
  have b: "params' ! k ! j = params ! k ! j" if "length ls \<le> k \<or> length us \<le> k" for k j
    using project_nth_beyond [OF p that] by simp
  have "\<forall>k < length params. \<forall>j < length (params ! k).
      (k < length ls \<and> k < length us \<longrightarrow>
         params' ! k ! j = clamp (bound_at (ls ! k) j) (bound_at (us ! k) j) (params ! k ! j)
         \<and> (\<forall>l u. ls ! k = Some l \<and> us ! k = Some u \<and> u ! j < l ! j \<longrightarrow> params' ! k ! j = u ! j))
      \<and> (length ls \<le> k \<or> length us \<le> k \<longrightarrow> params' ! k ! j = params ! k ! j)"
    using a b by blast
  moreover have "\<forall>l u x. clamp (Some l) (Some u) x = min (max x l) u \<and> clamp (Some l) None x = max x l
      \<and> clamp None (Some u) x = min x u \<and> clamp None None x = x"
    by (simp add: clamp_simps)
  ultimately show ?thesis
    using p len by blast
qed

theorem projection_clamps_witness:
  "shapes_ok [[1 / 2, 2, - 1]] [Some [1, 0, 0]] [Some [0, 1, 1]]
   \<and> project [[1 / 2, 2, - 1]] [Some [1, 0, 0]] [Some [0, 1, 1]] = Inr [[0, 1, 0]]"
proof -
  have sh: "shapes_ok [[1 / 2, 2, - 1]] [Some [1, 0, 0]] [Some [0, 1, 1]]"
    by (simp add: bound_ok_def)
  from projection_clamps [OF sh]
  obtain p where p: "project [[1 / 2, 2, - 1]] [Some [1, 0, 0]] [Some [0, 1, 1]] = Inr p"
    by blast
  then have "p = [[0, 1, 0]]"
    by (simp add: project_param_def torch_max_def torch_min_def)
  with p sh show ?thesis
    by simp
qed

text \<open>
  C7. Projecting a parameter list that lies within its bounds returns it unchanged; and
  projecting the result of a projection once more changes nothing.
\<close>

theorem projection_idempotent:
  "(feasible params ls us \<longrightarrow> project params ls us = Inr params)
   \<and> (project params ls us = Inr params' \<longrightarrow> project params' ls us = Inr params')"
  using project_feasible project_idem by blast

theorem projection_idempotent_witness:
  "feasible [[1 / 2, 1], [7]] [Some [0, 0], None] [Some [1, 1], None]
   \<and> project [[1 / 2, 1], [7]] [Some [0, 0], None] [Some [1, 1], None] = Inr [[1 / 2, 1], [7]]
   \<and> project [[3 / 2, - 1], [7]] [Some [0, 0], None] [Some [1, 1], None] = Inr [[1, 0], [7]]
   \<and> project [[1, 0], [7]] [Some [0, 0], None] [Some [1, 1], None] = Inr [[1, 0], [7]]"
proof -
  have f: "feasible [[1 / 2, 1], [7]] [Some [0, 0], None] [Some [1, 1], None]"
    by (simp add: lower_ok_def upper_ok_def)
  have p: "project [[3 / 2, - 1], [7]] [Some [0, 0], None] [Some [1, 1], None] = Inr [[1, 0], [7]]"
    by (simp add: project_param_def torch_max_def torch_min_def)
  from projection_idempotent [of "[[1 / 2, 1], [7]]" "[Some [0, 0], None]" "[Some [1, 1], None]"] f
  have a: "project [[1 / 2, 1], [7]] [Some [0, 0], None] [Some [1, 1], None] = Inr [[1 / 2, 1], [7]]"
    by blast
  from projection_idempotent [of "[[3 / 2, - 1], [7]]" "[Some [0, 0], None]" "[Some [1, 1], None]" "[[1, 0], [7]]"] p
  have b: "project [[1, 0], [7]] [Some [0, 0], None] [Some [1, 1], None] = Inr [[1, 0], [7]]"
    by blast
  from f a p b show ?thesis
    by blast
qed




text \<open>
  C8. For a count that double precision holds exactly (below \<open>2 ^ 53\<close> in absolute
  value), with \<open>show_examples\<close> true and with it false a call ends the same way: the same
  error, or else the same returned list, the same parameters of the type, the same
  optimizer state and the same progress lines. Sampling and rendering change only the
  state of the random number generator and the grid.
\<close>

theorem diagnostics_do_not_interfere:
  assumes "\<bar>nb_iter\<bar> < 2 ^ 53"
  shows "returned (optimize_type model c lr nb_iter eps True g)
     = returned (optimize_type model c lr nb_iter eps False g)
   \<and> final_parameters (optimize_type model c lr nb_iter eps True g)
     = final_parameters (optimize_type model c lr nb_iter eps False g)
   \<and> outcome (optimize_type model c lr nb_iter eps True g)
     = outcome (optimize_type model c lr nb_iter eps False g)"
proof -
  note eq = optimize_type_outcome [of model c lr nb_iter eps g]
  show ?thesis
  proof (cases "optimize_type model c lr nb_iter eps True g")
    case (Inl e)
    with eq have "optimize_type model c lr nb_iter eps False g = Inl e"
      by (simp add: outcome_def split: sum.splits)
    with Inl show ?thesis
      by (simp add: returned_def final_parameters_def outcome_def)
  next
    case (Inr s)
    with eq obtain t where "optimize_type model c lr nb_iter eps False g = Inr t" "core s = core t"
      by (auto simp: outcome_def split: sum.splits)
    with Inr show ?thesis
      by (simp add: returned_def final_parameters_def outcome_def core_def)
  qed
qed

theorem diagnostics_do_not_interfere_witness:
  "\<bar>7\<bar> < (2::int) ^ 53
   \<and> final_parameters (optimize_type constant_model unit_interval_type (1 / 1000) 7 (1 / 10000) True ())
       = Inr [[1]]
   \<and> returned (optimize_type constant_model unit_interval_type (1 / 1000) 7 (1 / 10000) True ())
       = returned (optimize_type constant_model unit_interval_type (1 / 1000) 7 (1 / 10000) False ())"
proof -
  have b: "\<bar>7\<bar> < (2::int) ^ 53"
    by simp
  note d = diagnostics_do_not_interfere [OF b, where model = constant_model and c = unit_interval_type
      and lr = "1 / 1000" and eps = "1 / 10000" and g = "()"]
  from d constant_ten
  have "final_parameters (optimize_type constant_model unit_interval_type (1 / 1000) 7 (1 / 10000) True ())
      = Inr [[1]]"
    by simp
  with d b show ?thesis
    by blast
qed

text \<open>
  C10. When a count that double precision holds exactly (below \<open>2 ^ 53\<close> in absolute
  value) rounds to a positive multiple of ten, every iteration index of the
  run, divided by the interval, is a row from 0 to 9, so the index into the ten rows of
  the grid is in range; and with bounds of the parameters' shapes the run returns with
  exactly ten progress lines, at the multiples 0 to 9 of the interval.
\<close>

theorem checkpoints_in_grid:
  assumes "0 < np_round nb_iter (- 1)" and "\<bar>nb_iter\<bar> < 2 ^ 53"
  shows "(\<forall>idx < nat (np_round nb_iter (- 1)).
            0 \<le> int idx div int_truediv (np_round nb_iter (- 1)) 10
            \<and> int idx div int_truediv (np_round nb_iter (- 1)) 10 < 10
            \<and> np_index 10 (int idx div int_truediv (np_round nb_iter (- 1)) 10)
                = Inr (nat (int idx div int_truediv (np_round nb_iter (- 1)) 10)))
    \<and> (shapes_ok (parameters c) (lbs c eps) (ubs c eps) \<longrightarrow>
         (\<exists>s. optimize_type model c lr nb_iter eps show_examples g = Inr s
            \<and> printed s = map (\<lambda>row. row * nat (int_truediv (np_round nb_iter (- 1)) 10)) [0..<10]
            \<and> length (printed s) = 10))"
proof (cases nb_iter rule: rounded_cases)
  case 1
  with assms(1) show ?thesis by simp
next
  case (2 m)
  have rows: "0 \<le> int idx div int m \<and> int idx div int m < 10
      \<and> np_index 10 (int idx div int m) = Inr (nat (int idx div int m))" if "idx < 10 * m" for idx
  proof -
    have "idx div m < 10"
      using 2(1) that by (simp add: less_mult_imp_div_less mult.commute)
    then have "0 \<le> int idx div int m" "int idx div int m < 10"
      by (simp_all flip: of_nat_div)
    then show ?thesis
      by (simp add: np_index_ok)
  qed
  have run: "\<exists>s. optimize_type model c lr nb_iter eps show_examples g = Inr s
      \<and> printed s = map (\<lambda>row. row * m) [0..<10] \<and> length (printed s) = 10"
    if sh: "shapes_ok (parameters c) (lbs c eps) (ubs c eps)"
  proof -
    from run_prefix [OF sh 2(1) order_refl, where model = model and b = show_examples and lr = lr and g = g]
    obtain s where s: "for_range (loop_body model (lbs c eps) (ubs c eps) show_examples (int m))
        [0..<10 * m] (init_state c lr show_examples g) = Inr s"
      "printed s = filter (\<lambda>i. i mod m = 0) [0..<10 * m]"
      by auto
    from s(2) have "printed s = map (\<lambda>row. row * m) [0..<10]"
      using filter_multiples [OF 2(1), of 10] by simp
    with s(1) 2(3,4) show ?thesis
      by (simp add: optimize_type_def)
  qed
  from rows run show ?thesis
    by (simp add: 2(3,4))
qed

theorem checkpoints_in_grid_witness:
  "0 < np_round 20 (- 1) \<and> \<bar>20\<bar> < (2::int) ^ 53
   \<and> np_index 10 (int 18 div int_truediv (np_round 20 (- 1)) 10) = Inr 9
   \<and> shapes_ok (parameters unit_interval_type) (lbs unit_interval_type (1 / 10000))
       (ubs unit_interval_type (1 / 10000))
   \<and> (\<exists>s. optimize_type constant_model unit_interval_type (1 / 1000) 20 (1 / 10000) True () = Inr s
        \<and> printed s = [0, 2, 4, 6, 8, 10, 12, 14, 16, 18])"
proof -
  have r: "np_round 20 (- 1) = 20"
    by (simp add: np_round_def rint_div_def)
  have pos: "0 < np_round 20 (- 1)"
    by (simp add: r)
  have i: "int_truediv 20 10 = 2"
    by (simp add: int_truediv_def)
  have l: "map (\<lambda>row. row * 2) [0..<10] = [0, 2, 4, 6, 8, 10, 12, 14, 16, 18::nat]"
    by code_simp
  have b: "\<bar>20\<bar> < (2::int) ^ 53"
    by simp
  note c = checkpoints_in_grid [OF pos b, where c = unit_interval_type and eps = "1 / 10000"
      and model = constant_model and lr = "1 / 1000" and show_examples = True and g = "()"]
  from c have "\<forall>idx < 20. np_index 10 (int idx div 2) = Inr (nat (int idx div 2))"
    by (simp add: r i)
  then have "np_index 10 (int 18 div 2) = Inr (nat (int 18 div 2))"
    by (rule allE [of _ 18]) simp
  then have a: "np_index 10 (int 18 div int_truediv (np_round 20 (- 1)) 10) = Inr 9"
    by (simp add: r i)
  from c unit_interval_shapes
  have "\<exists>s. optimize_type constant_model unit_interval_type (1 / 1000) 20 (1 / 10000) True () = Inr s
      \<and> printed s = map (\<lambda>row. row * 2) [0..<10]"
    by (auto simp: r i)
  then have "\<exists>s. optimize_type constant_model unit_interval_type (1 / 1000) 20 (1 / 10000) True () = Inr s
      \<and> printed s = [0, 2, 4, 6, 8, 10, 12, 14, 16, 18]"
    by (simp only: l)
  with a pos b unit_interval_shapes show ?thesis
    by blast
qed

end
